theory Spec2Isabelle
  imports Complex_Main
begin

section \<open>Timestamped words\<close>

text \<open>
  The transcriber passes words around as Python tuples \<open>(beg, end, "text")\<close>.
  Timestamps are Python floats; they are modelled as real numbers, so \<open>a + offset\<close> and
  \<open>t - 0.1\<close> are exact and the comparisons are the ones of the source. Texts are
  modelled as lists of 8-bit characters.
\<close>

type_synonym tsw = "real \<times> real \<times> string"

definition w_beg :: "tsw \<Rightarrow> real" where
  "w_beg w = fst w"

definition w_end :: "tsw \<Rightarrow> real" where
  "w_end w = fst (snd w)"

definition w_text :: "tsw \<Rightarrow> string" where
  "w_text w = snd (snd w)"

text \<open>Python's \<open>sep.join(parts)\<close>.\<close>

fun join :: "string \<Rightarrow> string list \<Rightarrow> string" where
  "join sep [] = []"
| "join sep [x] = x"
| "join sep (x # y # ys) = x @ sep @ join sep (y # ys)"

section \<open>HypothesisBuffer\<close>

record hypothesis_buffer =
  commited_in_buffer :: "tsw list"
  buffer :: "tsw list"
  new :: "tsw list"
  last_commited_time :: real
  last_commited_word :: "string option"

text \<open>\<open>HypothesisBuffer.__init__\<close>\<close>

definition init_buffer :: hypothesis_buffer where
  "init_buffer = \<lparr>commited_in_buffer = [], buffer = [], new = [],
     last_commited_time = 0, last_commited_word = None\<rparr>"

subsection \<open>insert\<close>

text \<open>
  \<open>c = " ".join([commited_in_buffer[-j][2] for j in range(1, i + 1)][::-1])\<close>:
  only evaluated for \<open>i \<le> len(commited_in_buffer)\<close>, so every index is in range.
\<close>

definition commited_ngram :: "nat \<Rightarrow> tsw list \<Rightarrow> string" where
  "commited_ngram i c =
     join '' '' (rev (map (\<lambda>j. w_text (c ! (length c - j))) [1 ..< Suc i]))"

text \<open>
  \<open>tail = " ".join(new[j - 1][2] for j in range(1, i + 1))\<close>:
  only evaluated for \<open>i \<le> len(new)\<close>.
\<close>

definition new_ngram :: "nat \<Rightarrow> tsw list \<Rightarrow> string" where
  "new_ngram i n = join '' '' (map (\<lambda>j. w_text (n ! (j - 1))) [1 ..< Suc i])"

text \<open>
  The loop \<open>for i in range(1, min(min(cn, nn), 5) + 1)\<close>, run over the list of the
  values of \<open>i\<close>: at the first \<open>i\<close> whose two joined n-grams are equal, \<open>i\<close> words
  are popped from the front of \<open>new\<close> and the loop is left by \<open>break\<close>.
\<close>

fun ngram_loop :: "nat list \<Rightarrow> tsw list \<Rightarrow> tsw list \<Rightarrow> tsw list" where
  "ngram_loop [] c n = n"
| "ngram_loop (i # rest) c n =
     (if commited_ngram i c = new_ngram i n then drop i n else ngram_loop rest c n)"

text \<open>
  The first two statements of \<open>insert\<close>: every word is shifted by \<open>offset\<close>, and a
  word is kept when it starts after \<open>last_commited_time - 0.1\<close>. The sum and the
  difference are exact here, where the program rounds each to a double: a word that starts
  within one rounding error of the threshold may be kept by the program and dropped here.
  No statement below bounds a committed time by this threshold.
\<close>

definition kept_words :: "tsw list \<Rightarrow> real \<Rightarrow> hypothesis_buffer \<Rightarrow> tsw list" where
  "kept_words new_words offset s =
     filter (\<lambda>(a, b, t). a > last_commited_time s - 0.1)
       (map (\<lambda>(a, b, t). (a + offset, b + offset, t)) new_words)"

definition insert_hyp :: "tsw list \<Rightarrow> real \<Rightarrow> hypothesis_buffer \<Rightarrow> hypothesis_buffer" where
  "insert_hyp new_words offset s =
     (let kept = kept_words new_words offset s
      in case kept of
           [] \<Rightarrow> s\<lparr>new := kept\<rparr>
         | (a, b, t) # _ \<Rightarrow>
             if \<bar>a - last_commited_time s\<bar> < 1 then
               if commited_in_buffer s \<noteq> [] then
                 let cn = length (commited_in_buffer s);
                     nn = length kept
                 in s\<lparr>new := ngram_loop [1 ..< Suc (min (min cn nn) 5)]
                                 (commited_in_buffer s) kept\<rparr>
               else s\<lparr>new := kept\<rparr>
             else s\<lparr>new := kept\<rparr>)"

subsection \<open>flush\<close>

text \<open>
  The \<open>while self.new\<close> loop of \<open>flush\<close>, with the local list \<open>commit\<close> as an
  accumulator: it stops when \<open>new\<close> is empty, when \<open>buffer\<close> is empty, or at the first
  pair of heads whose texts differ.
\<close>

function flush_loop :: "tsw list \<Rightarrow> hypothesis_buffer \<Rightarrow> tsw list \<times> hypothesis_buffer" where
  "flush_loop commit s =
     (case new s of
        [] \<Rightarrow> (commit, s)
      | (na, nb, nt) # ns \<Rightarrow>
          (case buffer s of
             [] \<Rightarrow> (commit, s)
           | b # bs \<Rightarrow>
               if nt = w_text b then
                 flush_loop (commit @ [(na, nb, nt)])
                   (s\<lparr>last_commited_word := Some nt, last_commited_time := nb,
                      buffer := bs, new := ns\<rparr>)
               else (commit, s)))"
  by pat_completeness auto
termination
  by (relation "measure (\<lambda>(commit, s). length (new s))") auto

declare flush_loop.simps [simp del]

definition flush :: "hypothesis_buffer \<Rightarrow> tsw list \<times> hypothesis_buffer" where
  "flush s =
     (let (commit, s1) = flush_loop [] s;
          s2 = s1\<lparr>buffer := new s1\<rparr>;
          s3 = s2\<lparr>new := []\<rparr>;
          s4 = s3\<lparr>commited_in_buffer := commited_in_buffer s3 @ commit\<rparr>
      in (commit, s4))"

text \<open>\<open>pop_commited\<close>: drop from the front every committed word that ends by \<open>time\<close>.\<close>

definition pop_commited :: "real \<Rightarrow> hypothesis_buffer \<Rightarrow> hypothesis_buffer" where
  "pop_commited time s =
     s\<lparr>commited_in_buffer := dropWhile (\<lambda>w. w_end w \<le> time) (commited_in_buffer s)\<rparr>"

definition complete_hyp :: "hypothesis_buffer \<Rightarrow> tsw list" where
  "complete_hyp s = buffer s"

text \<open>
  The longest common prefix of two word lists by text equality, as a length: the
  specification of what \<open>flush\<close> commits.
\<close>

fun common_prefix_len :: "tsw list \<Rightarrow> tsw list \<Rightarrow> nat" where
  "common_prefix_len (x # xs) (y # ys) =
     (if w_text x = w_text y then Suc (common_prefix_len xs ys) else 0)"
| "common_prefix_len xs ys = 0"


text \<open>
  The comparison the n-gram loop makes at \<open>i\<close>, for \<open>i\<close> within both lists: the last
  \<open>i\<close> committed texts and the first \<open>i\<close> incoming texts, each joined with single
  spaces, are the same string.
\<close>

definition ngram_match :: "tsw list \<Rightarrow> tsw list \<Rightarrow> nat \<Rightarrow> bool" where
  "ngram_match c n i =
     (join '' '' (map w_text (drop (length c - i) c)) = join '' '' (map w_text (take i n)))"

text \<open>Two buffers reached by inserting and flushing the same hypothesis twice.\<close>

definition repeated_a_buffer :: hypothesis_buffer where
  "repeated_a_buffer =
     snd (flush (insert_hyp [(0, 0.5, ''a''), (0.5, 1, ''a'')] 0
       (snd (flush (insert_hyp [(0, 0.5, ''a''), (0.5, 1, ''a'')] 0 init_buffer)))))"

definition the_cat_buffer :: hypothesis_buffer where
  "the_cat_buffer =
     snd (flush (insert_hyp [(0, 0.5, ''the''), (0.5, 1, ''cat'')] 0
       (snd (flush (insert_hyp [(0, 0.5, ''the''), (0.5, 1, ''cat'')] 0 init_buffer)))))"






section \<open>Python values used by the processor\<close>

text \<open>
  The exceptions the modelled code can raise. \<open>ExternalError\<close> stands for any
  exception (an instance of Python's \<open>Exception\<close>) raised inside a collaborator: the
  transcriber, the translation model or the hosted translation client.
\<close>

datatype py_error =
    TypeError
  | UnboundLocalError
  | IndexError
  | ValueError
  | AssertionError
  | NotImplementedError
  | ExternalError string

text \<open>
  A segment is a tuple \<open>(beg, end, "text")\<close> whose times may be \<open>None\<close>:
  \<open>concatenate_tsw\<close> returns \<open>(None, None, "")\<close> for an empty list.
\<close>

type_synonym seg = "real option \<times> real option \<times> string"

definition seg_beg :: "seg \<Rightarrow> real option" where
  "seg_beg g = fst g"

definition seg_end :: "seg \<Rightarrow> real option" where
  "seg_end g = fst (snd g)"

definition seg_text :: "seg \<Rightarrow> string" where
  "seg_text g = snd (snd g)"

definition seg_of :: "tsw \<Rightarrow> seg" where
  "seg_of w = (Some (w_beg w), Some (w_end w), w_text w)"

definition empty_seg :: seg where
  "empty_seg = (None, None, [])"

text \<open>\<open>int(x)\<close> on a float truncates towards zero.\<close>

definition py_int :: "real \<Rightarrow> int" where
  "py_int x = (if 0 \<le> x then \<lfloor>x\<rfloor> else \<lceil>x\<rceil>)"

text \<open>
  The slice \<open>xs[k:]\<close>: a negative \<open>k\<close> counts from the end, and a \<open>k\<close> outside
  the list is clipped.
\<close>

definition py_slice_from :: "int \<Rightarrow> 'a list \<Rightarrow> 'a list" where
  "py_slice_from k xs =
     (if 0 \<le> k then drop (nat k) xs else drop (length xs - nat (- k)) xs)"

section \<open>Joining words and segments\<close>

text \<open>
  \<open>concatenate_tsw\<close> with its defaults \<open>sep = ""\<close> and \<open>offset = 0\<close>, on a list of
  words: the times are numbers, so \<open>offset + tsw[0][0]\<close> cannot fail.
\<close>

definition concatenate_words :: "tsw list \<Rightarrow> seg" where
  "concatenate_words tsw =
     (let t = join [] (map w_text tsw)
      in case tsw of
           [] \<Rightarrow> (None, None, t)
         | _ # _ \<Rightarrow> (Some (0 + w_beg (hd tsw)), Some (0 + w_end (last tsw)), t))"

text \<open>
  The same function on a list of segments: \<open>offset + tsw[0][0]\<close> and
  \<open>offset + tsw[-1][1]\<close> raise TypeError when the time is \<open>None\<close>.
\<close>

definition concatenate_tsw :: "seg list \<Rightarrow> py_error + seg" where
  "concatenate_tsw tsw =
     (let t = join [] (map seg_text tsw)
      in case tsw of
           [] \<Rightarrow> Inr (None, None, t)
         | _ # _ \<Rightarrow>
             (case seg_beg (hd tsw) of
                None \<Rightarrow> Inl TypeError
              | Some b \<Rightarrow>
                  (case seg_end (last tsw) of
                     None \<Rightarrow> Inl TypeError
                   | Some e \<Rightarrow> Inr (Some (0 + b), Some (0 + e), t))))"

definition concat_two_segments :: "seg \<Rightarrow> seg \<Rightarrow> py_error + seg" where
  "concat_two_segments first second =
     (if seg_end first = None then Inr second
      else if seg_end second = None then Inr first
      else concatenate_tsw [first, second])"

section \<open>check_words\<close>

text \<open>
  \<open>max(word_freq.values())\<close>: the dictionary counts the occurrences of every text, so
  its largest value is the largest number of occurrences of a text of the list.
\<close>

definition max_word_freq :: "tsw list \<Rightarrow> nat" where
  "max_word_freq words =
     foldr max (map (\<lambda>w. count_list (map w_text words) (w_text w)) words) 0"

definition check_words :: "tsw list \<Rightarrow> tsw list" where
  "check_words words =
     (if length words > 5 \<and> real (max_word_freq words) / real (length words) > 0.5
      then [] else words)"

section \<open>words_to_sentences\<close>

text \<open>The regular expressions of \<open>words_to_sentences\<close>, on 8-bit characters.\<close>

text \<open>\<open>re.search(r"[.?!]", t)\<close>\<close>

definition has_punct :: "string \<Rightarrow> bool" where
  "has_punct t = list_ex (\<lambda>c. c = CHR ''.'' \<or> c = CHR ''?'' \<or> c = CHR ''!'') t"

text \<open>\<open>re.search(r"\.", t)\<close>\<close>

definition has_dot :: "string \<Rightarrow> bool" where
  "has_dot t = list_ex (\<lambda>c. c = CHR ''.'') t"

text \<open>\<open>re.match(r"\.", t)\<close>: the pattern is matched at the start of the text.\<close>

definition starts_with_dot :: "string \<Rightarrow> bool" where
  "starts_with_dot t = (case t of [] \<Rightarrow> False | c # _ \<Rightarrow> c = CHR ''.'')"

text \<open>\<open>re.search(r"\.\.\.", t)\<close>\<close>

fun has_ellipsis :: "string \<Rightarrow> bool" where
  "has_ellipsis (a # b # c # rest) =
     ((a = CHR ''.'' \<and> b = CHR ''.'' \<and> c = CHR ''.'') \<or> has_ellipsis (b # c # rest))"
| "has_ellipsis t = False"

definition is_digit :: "char \<Rightarrow> bool" where
  "is_digit c = (c \<in> set ''0123456789'')"

text \<open>\<open>re.search(r"\d\.", t)\<close>\<close>

fun has_digit_dot :: "string \<Rightarrow> bool" where
  "has_digit_dot (a # b # rest) =
     ((is_digit a \<and> b = CHR ''.'') \<or> has_digit_dot (b # rest))"
| "has_digit_dot t = False"

text \<open>
  The body of the loop up to \<open>sentence.append(w)\<close>: the value of \<open>break_sentence\<close> for
  the text of a word. The words that reach this function are the tuples built by
  \<open>HypothesisBuffer.insert\<close> and \<open>flush\<close>, so the assignment \<open>w[2] = w[2][1:]\<close> raises
  TypeError (a tuple does not support item assignment). In the ellipsis branch the result
  of the call \<open>w[2].replace\<close> is discarded: the word is left as it is.
\<close>

definition break_sentence :: "string \<Rightarrow> py_error + bool" where
  "break_sentence t =
     (if has_punct t then
        if \<not> has_dot t then Inr True
        else if starts_with_dot t then Inl TypeError
        else if has_ellipsis t then Inr False
        else if has_digit_dot t then Inr False
        else Inr True
      else Inr False)"

text \<open>
  The \<open>for w in words\<close> loop, with its three variables: \<open>all_sentences\<close>,
  \<open>sentence\<close> and \<open>break_sentence\<close>, which has no value (\<open>None\<close> here) until the
  first iteration assigns it.
\<close>

fun sentences_loop ::
  "tsw list \<Rightarrow> seg list \<Rightarrow> tsw list \<Rightarrow> bool option \<Rightarrow>
     py_error + (seg list \<times> tsw list \<times> bool option)" where
  "sentences_loop [] all_sentences sentence br = Inr (all_sentences, sentence, br)"
| "sentences_loop (w # ws) all_sentences sentence br =
     (case break_sentence (w_text w) of
        Inl e \<Rightarrow> Inl e
      | Inr b \<Rightarrow>
          if b then
            sentences_loop ws (all_sentences @ [concatenate_words (sentence @ [w])]) [] (Some b)
          else sentences_loop ws all_sentences (sentence @ [w]) (Some b))"

definition words_to_sentences :: "tsw list \<Rightarrow> py_error + (seg list \<times> tsw list)" where
  "words_to_sentences words =
     (case sentences_loop words [] [] None of
        Inl e \<Rightarrow> Inl e
      | Inr (all_sentences, sentence, br) \<Rightarrow>
          (case br of
             None \<Rightarrow> Inl UnboundLocalError
           | Some b \<Rightarrow> Inr (all_sentences, if b then [] else sentence)))"

section \<open>OnlineASRProcessor\<close>

text \<open>
  The audio buffer is a list of samples. The output folder, the log files and the logger
  are not modelled: writing to them changes none of the fields below.
\<close>

record asr_processor =
  audio_buffer :: "real list"
  len_audio_buffer_last_transcribed :: nat
  transcript_buffer :: hypothesis_buffer
  buffer_time_offset :: real
  promt :: string
  final_transcript :: "seg list"
  commited_not_final :: "tsw list"
  buffer_trimming_way :: string
  buffer_trimming_sec :: real

text \<open>
  The class constant \<open>SAMPLING_RATE = 16000\<close>; the code only divides and multiplies
  floats by it.
\<close>

definition SAMPLING_RATE :: real where
  "SAMPLING_RATE = 16000"

text \<open>\<open>init(offset=None)\<close>: the trimming configuration is not touched.\<close>

definition init :: "real option \<Rightarrow> asr_processor \<Rightarrow> asr_processor" where
  "init offset p =
     (let off = (case offset of None \<Rightarrow> 0 | Some x \<Rightarrow> x)
      in p\<lparr>audio_buffer := [],
           len_audio_buffer_last_transcribed := 0,
           transcript_buffer := init_buffer\<lparr>last_commited_time := off\<rparr>,
           buffer_time_offset := off,
           promt := [],
           final_transcript := [],
           commited_not_final := []\<rparr>)"

text \<open>
  The constructor: \<open>self.init()\<close>, then the checks of \<open>buffer_trimming\<close>, each of
  which raises ValueError.
\<close>

definition new_processor :: "string \<Rightarrow> real \<Rightarrow> py_error + asr_processor" where
  "new_processor way sec =
     (let p = init None \<lparr>audio_buffer = [], len_audio_buffer_last_transcribed = 0,
                transcript_buffer = init_buffer, buffer_time_offset = 0, promt = [],
                final_transcript = [], commited_not_final = [],
                buffer_trimming_way = way, buffer_trimming_sec = sec\<rparr>
      in if way \<noteq> ''sentence'' \<and> way \<noteq> ''segment'' then Inl ValueError
         else if sec \<le> 0 then Inl ValueError
         else if sec > 30 then Inl ValueError
         else Inr p)"

definition insert_audio_chunk :: "real list \<Rightarrow> asr_processor \<Rightarrow> asr_processor" where
  "insert_audio_chunk audio p = p\<lparr>audio_buffer := audio_buffer p @ audio\<rparr>"

text \<open>
  \<open>chunk_at(time)\<close>: drops the committed words that end by \<open>time\<close>, cuts
  \<open>int(cut_seconds * SAMPLING_RATE)\<close> samples off the audio with a slice, and moves the
  offset.
\<close>

definition chunk_at :: "real \<Rightarrow> asr_processor \<Rightarrow> asr_processor" where
  "chunk_at time p =
     (let cut_seconds = time - buffer_time_offset p
      in p\<lparr>transcript_buffer := pop_commited time (transcript_buffer p),
           audio_buffer :=
             py_slice_from (py_int (cut_seconds * SAMPLING_RATE)) (audio_buffer p),
           buffer_time_offset := time\<rparr>)"

text \<open>
  The loop \<open>while len(ends) > 2 and e > t: ends.pop(-1); e = ends[-2]\<close> on the pair of
  its variables \<open>ends\<close> and \<open>e\<close>.
\<close>

function ends_loop :: "real \<Rightarrow> real list \<Rightarrow> real \<Rightarrow> real list \<times> real" where
  "ends_loop t ends e =
     (if length ends > 2 \<and> e > t then
        ends_loop t (butlast ends) (butlast ends ! (length (butlast ends) - 2))
      else (ends, e))"
  by pat_completeness auto
termination
  by (relation "measure (\<lambda>(t, ends, e). length ends)") auto

declare ends_loop.simps [simp del]

text \<open>
  \<open>chunk_completed_segment(ts_words)\<close>: the words it returns and the processor it
  leaves. With two words or more, \<open>ts_words[-1][1]\<close> and \<open>ends[-2]\<close> are in range.
\<close>

definition chunk_completed_segment ::
  "tsw list \<Rightarrow> asr_processor \<Rightarrow> tsw list \<times> asr_processor" where
  "chunk_completed_segment ts_words p =
     (if length ts_words \<le> 1 then ([], p)
      else
        let ends0 = map w_end ts_words;
            t = w_end (ts_words ! (length ts_words - 1));
            (ends, e) = ends_loop t ends0 (ends0 ! (length ends0 - 2))
        in if e \<le> t then
             let p1 = chunk_at e p;
                 n_commited_words = length ends - 1;
                 words_to_commit = take n_commited_words ts_words;
                 p2 = p1\<lparr>final_transcript :=
                          final_transcript p1 @ map seg_of words_to_commit\<rparr>;
                 p3 = p2\<lparr>commited_not_final := drop n_commited_words ts_words\<rparr>
             in (words_to_commit, p3)
           else ([], p))"

text \<open>
  The second half of \<open>get_completed_words\<close>, reached in segment mode and, in sentence
  mode, when no sentence was found.
\<close>

definition forced_chunk :: "asr_processor \<Rightarrow> (py_error + seg list) \<times> asr_processor" where
  "forced_chunk p =
     (if real (length (audio_buffer p)) / SAMPLING_RATE < buffer_trimming_sec p
      then (Inr [], p)
      else
        let (completed_words, p1) = chunk_completed_segment (commited_not_final p) p
        in if buffer_trimming_way p = ''sentence''
           then (Inr [concatenate_words completed_words], p1)
           else (Inr (map seg_of completed_words), p1))"

text \<open>
  \<open>get_completed_words\<close>: the result or the exception, and the processor as it is
  left. \<open>chunk_at(None)\<close> would raise TypeError while formatting its log line.
\<close>

definition get_completed_words ::
  "asr_processor \<Rightarrow> (py_error + seg list) \<times> asr_processor" where
  "get_completed_words p =
     (if buffer_trimming_way p = ''sentence'' then
        (case words_to_sentences (commited_not_final p) of
           Inl err \<Rightarrow> (Inl err, p)
         | Inr (sentences, tailing_words) \<Rightarrow>
             if length sentences > 0 then
               (case seg_end (last sentences) of
                  None \<Rightarrow> (Inl TypeError, p)
                | Some time \<Rightarrow>
                    let p1 = chunk_at time p;
                        p2 = p1\<lparr>commited_not_final := tailing_words\<rparr>
                    in (Inr sentences, p2))
             else forced_chunk p)
      else forced_chunk p)"

text \<open>
  The transcriber is a collaborator: \<open>asr audio prompt\<close> is what
  \<open>asr.ts_words(asr.transcribe(audio, init_prompt=prompt))\<close> returns or raises.
\<close>

type_synonym asr = "real list \<Rightarrow> string \<Rightarrow> py_error + tsw list"

definition transcribe_audio_buffer ::
  "asr \<Rightarrow> asr_processor \<Rightarrow> (py_error + tsw list) \<times> asr_processor" where
  "transcribe_audio_buffer a p =
     (let len_audio_buffer_now = length (audio_buffer p)
      in if len_audio_buffer_now = len_audio_buffer_last_transcribed p then (Inr [], p)
         else
           let p1 = p\<lparr>len_audio_buffer_last_transcribed := len_audio_buffer_now\<rparr>
           in case a (audio_buffer p1) (promt p1) of
                Inl err \<Rightarrow> (Inl err, p1)
              | Inr tsw \<Rightarrow>
                  (Inr (map (\<lambda>(b, e, t). (b + buffer_time_offset p1,
                                           e + buffer_time_offset p1, t)) tsw), p1))"

text \<open>
  The block of \<open>process_iter\<close> under \<open>if len(commited_tsw) > 0\<close>: it leaves the
  value of \<open>completed\<close>. The prompt keeps the last 200 characters.
\<close>

definition complete_commited ::
  "tsw list \<Rightarrow> asr_processor \<Rightarrow> (py_error + seg) \<times> asr_processor" where
  "complete_commited commited_tsw p =
     (let p1 = p\<lparr>commited_not_final := commited_not_final p @ commited_tsw\<rparr>
      in case get_completed_words p1 of
           (Inl err, p2) \<Rightarrow> (Inl err, p2)
         | (Inr completed_words, p2) \<Rightarrow>
             if length completed_words > 0 then
               let p3 = p2\<lparr>final_transcript := final_transcript p2 @ completed_words\<rparr>
               in case concatenate_tsw completed_words of
                    Inl err \<Rightarrow> (Inl err, p3)
                  | Inr completed \<Rightarrow>
                      (Inr completed,
                       p3\<lparr>promt := py_slice_from (- 200) (promt p3 @ seg_text completed)\<rparr>)
             else (Inr empty_seg, p2))"

definition process_iter ::
  "asr \<Rightarrow> asr_processor \<Rightarrow> (py_error + seg \<times> seg) \<times> asr_processor" where
  "process_iter a p =
     (case transcribe_audio_buffer a p of
        (Inl err, p1) \<Rightarrow> (Inl err, p1)
      | (Inr tsw0, p1) \<Rightarrow>
          let tsw = check_words tsw0
          in if length tsw = 0 then (Inr (empty_seg, empty_seg), p1)
             else
               let (commited_tsw, tb) = flush (insert_hyp tsw 0 (transcript_buffer p1));
                   p2 = p1\<lparr>transcript_buffer := tb\<rparr>
               in case (if length commited_tsw > 0 then complete_commited commited_tsw p2
                        else (Inr empty_seg, p2)) of
                    (Inl err, p3) \<Rightarrow> (Inl err, p3)
                  | (Inr completed, p3) \<Rightarrow>
                      let commited_but_not_final = concatenate_words (commited_not_final p3);
                          incomplete = concatenate_words (complete_hyp (transcript_buffer p3))
                      in case concat_two_segments commited_but_not_final incomplete of
                           Inl err \<Rightarrow> (Inl err, p3)
                         | Inr uncommitted \<Rightarrow> (Inr (completed, uncommitted), p3))"

definition finish ::
  "asr \<Rightarrow> asr_processor \<Rightarrow> (py_error + seg \<times> seg) \<times> asr_processor" where
  "finish a p =
     (case transcribe_audio_buffer a p of
        (Inl err, p1) \<Rightarrow> (Inl err, p1)
      | (Inr tsw, p1) \<Rightarrow>
          (Inr (concatenate_words tsw, empty_seg),
           p1\<lparr>commited_not_final := [], audio_buffer := []\<rparr>))"

text \<open>
  The processors a client can reach: a constructed one, and whatever a method leaves
  behind, whether it returns or raises. The transcriber may answer differently at every
  call.
\<close>

inductive reachable :: "asr_processor \<Rightarrow> bool" where
  constructed: "new_processor way sec = Inr p \<Longrightarrow> reachable p"
| after_init: "reachable p \<Longrightarrow> reachable (init offset p)"
| after_insert_audio_chunk: "reachable p \<Longrightarrow> reachable (insert_audio_chunk audio p)"
| after_process_iter: "reachable p \<Longrightarrow> reachable (snd (process_iter a p))"
| after_finish: "reachable p \<Longrightarrow> reachable (snd (finish a p))"
| after_chunk_at: "reachable p \<Longrightarrow> reachable (chunk_at time p)"
| after_get_completed_words: "reachable p \<Longrightarrow> reachable (snd (get_completed_words p))"
| after_chunk_completed_segment:
    "reachable p \<Longrightarrow> reachable (snd (chunk_completed_segment ts_words p))"

text \<open>
  The processor of the segment-mode scenario: twelve seconds of audio, a threshold of
  ten seconds, four committed words that are not final yet.
\<close>

definition segment_trim_example :: asr_processor where
  "segment_trim_example =
     \<lparr>audio_buffer = replicate 192000 0,
      len_audio_buffer_last_transcribed = 192000,
      transcript_buffer =
        \<lparr>commited_in_buffer =
           [(0, 1, ''a''), (1, 2, ''b''), (9.5, 10, ''c''), (10, 10.5, ''d'')],
         buffer = [], new = [], last_commited_time = 10.5,
         last_commited_word = Some ''d''\<rparr>,
      buffer_time_offset = 0, promt = [], final_transcript = [],
      commited_not_final =
        [(0, 1, ''a''), (1, 2, ''b''), (9.5, 10, ''c''), (10, 10.5, ''d'')],
      buffer_trimming_way = ''segment'', buffer_trimming_sec = 10\<rparr>"

text \<open>
  A processor in sentence mode as the constructor leaves it, a transcriber that
  always hears the same two words, and the processor after two rounds of new audio and
  \<open>process_iter\<close>.
\<close>

definition sentence_processor :: asr_processor where
  "sentence_processor =
     \<lparr>audio_buffer = [], len_audio_buffer_last_transcribed = 0,
      transcript_buffer = init_buffer, buffer_time_offset = 0, promt = [],
      final_transcript = [], commited_not_final = [],
      buffer_trimming_way = ''sentence'', buffer_trimming_sec = 15\<rparr>"

definition hi_asr :: asr where
  "hi_asr audio prompt = Inr [(0, 1, ''Hi.''), (1, 2, ''there'')]"

definition hi_processor :: asr_processor where
  "hi_processor =
     snd (process_iter hi_asr (insert_audio_chunk [0]
       (snd (process_iter hi_asr (insert_audio_chunk [0] sentence_processor)))))"

section \<open>Translation\<close>

text \<open>\<open>needle in text\<close> on strings.\<close>

fun starts_with :: "string \<Rightarrow> string \<Rightarrow> bool" where
  "starts_with [] text = True"
| "starts_with (c # cs) [] = False"
| "starts_with (c # cs) (d # ds) = (c = d \<and> starts_with cs ds)"

fun contains_str :: "string \<Rightarrow> string \<Rightarrow> bool" where
  "contains_str needle [] = starts_with needle []"
| "contains_str needle (d # ds) = (starts_with needle (d # ds) \<or> contains_str needle ds)"

text \<open>
  What \<open>prepare\<close> hands to the translators: the tokenizer's output for an m2m100
  model (kept abstract: it carries the text it was made from), the text itself otherwise.
\<close>

datatype prepared = Tokenized string | Plain string

subsection \<open>OnlineTranslator\<close>

record online_translator =
  src_lang :: string
  tgt_lang :: string
  model_name :: string

text \<open>
  The translation collaborators, each returning its value or the exception it raises:
  \<open>generate\<close> is \<open>model.generate\<close> on the tokenized text with the translator's
  inference arguments (the forced target language), \<open>batch_decode\<close> is the tokenizer's
  \<open>batch_decode\<close>, \<open>translate_text\<close> is the hosted client's call (text, target
  language, source language), followed by reading \<open>result.text\<close>.
\<close>

record mt_model =
  generate :: "string \<Rightarrow> string \<Rightarrow> py_error + nat list"
  batch_decode :: "nat list \<Rightarrow> py_error + string list"
  translate_text :: "string \<Rightarrow> string \<Rightarrow> string \<Rightarrow> py_error + string"

definition translation_error :: string where
  "translation_error = ''[ Translation Error ]''"

definition to_upper :: "char \<Rightarrow> char" where
  "to_upper c =
     (if c \<in> set ''abcdefghijklmnopqrstuvwxyz'' then char_of (of_char c - (32::nat)) else c)"

definition translate_language_code_for_deepl :: "string \<Rightarrow> string" where
  "translate_language_code_for_deepl lang =
     (if lang = ''en'' then ''EN-US'' else map to_upper lang)"

text \<open>
  \<open>_translate_tokenized_text\<close>: the assertion stands before the \<open>try\<close>; everything
  after it is inside, and \<open>except Exception\<close> returns the sentinel. Unpacking a plain
  string with \<open>**\<close> raises TypeError and indexing an empty decoded batch raises
  IndexError, both inside the \<open>try\<close>.
\<close>

definition translate_tokenized_text ::
  "mt_model \<Rightarrow> online_translator \<Rightarrow> prepared \<Rightarrow> py_error + string" where
  "translate_tokenized_text m T tokenized_text =
     (if \<not> contains_str ''m2m100'' (model_name T) then Inl AssertionError
      else
        case tokenized_text of
          Plain text \<Rightarrow> Inr translation_error
        | Tokenized text \<Rightarrow>
            (case generate m text (tgt_lang T) of
               Inl e \<Rightarrow> Inr translation_error
             | Inr generated_tokens \<Rightarrow>
                 (case batch_decode m generated_tokens of
                    Inl e \<Rightarrow> Inr translation_error
                  | Inr [] \<Rightarrow> Inr translation_error
                  | Inr (translated_text # _) \<Rightarrow> Inr translated_text)))"

text \<open>\<open>_translate_with_deepl\<close>: two assertions, then the call inside \<open>try\<close>.\<close>

definition translate_with_deepl ::
  "mt_model \<Rightarrow> online_translator \<Rightarrow> prepared \<Rightarrow> py_error + string" where
  "translate_with_deepl m T prepared_text =
     (if model_name T \<noteq> ''deepl'' then Inl AssertionError
      else
        case prepared_text of
          Tokenized text \<Rightarrow> Inl AssertionError
        | Plain text \<Rightarrow>
            (case translate_text m text
                    (translate_language_code_for_deepl (tgt_lang T))
                    (translate_language_code_for_deepl (src_lang T)) of
               Inl e \<Rightarrow> Inr translation_error
             | Inr result_text \<Rightarrow> Inr result_text))"

definition translate_prepared_text ::
  "mt_model \<Rightarrow> online_translator \<Rightarrow> prepared \<Rightarrow> py_error + string" where
  "translate_prepared_text m T prepared_text =
     (if contains_str ''m2m100'' (model_name T) then translate_tokenized_text m T prepared_text
      else if model_name T = ''deepl'' then translate_with_deepl m T prepared_text
      else Inl NotImplementedError)"

text \<open>Two translators and a model whose calls fail.\<close>

definition m2m_translator :: online_translator where
  "m2m_translator =
     \<lparr>src_lang = ''en'', tgt_lang = ''de'', model_name = ''facebook/m2m100_418M''\<rparr>"

definition deepl_translator :: online_translator where
  "deepl_translator = \<lparr>src_lang = ''en'', tgt_lang = ''fr'', model_name = ''deepl''\<rparr>"

definition failing_model :: mt_model where
  "failing_model =
     \<lparr>generate = (\<lambda>text lang. Inl (ExternalError ''out of memory'')),
      batch_decode = (\<lambda>tokens. Inr []),
      translate_text = (\<lambda>text tgt src. Inl (ExternalError ''quota exceeded''))\<rparr>"

subsection \<open>TranslationPipeline\<close>

text \<open>
  The queue holds pairs of a segment and its completeness flag. \<open>calls\<close> records each
  call \<open>T.translate_to_output(prepared_text, is_complete)\<close> by the translator's target
  language; \<open>warnings\<close> records the queue size of each skipped item.
\<close>

record translation_pipeline =
  pipeline_model_name :: string
  translators :: "online_translator list"
  translation_queue :: "(seg \<times> bool) list"
  should_run :: bool
  calls :: "(string \<times> prepared \<times> bool) list"
  warnings :: "nat list"

definition prepare :: "translation_pipeline \<Rightarrow> string \<Rightarrow> prepared" where
  "prepare s text =
     (if contains_str ''m2m100'' (pipeline_model_name s) then Tokenized text else Plain text)"

definition put_text ::
  "seg \<Rightarrow> bool \<Rightarrow> translation_pipeline \<Rightarrow> py_error + translation_pipeline" where
  "put_text transcription_segment is_complete s =
     (if seg_text transcription_segment = [] then Inl AssertionError
      else Inr (s\<lparr>translation_queue :=
                  translation_queue s @ [(transcription_segment, is_complete)]\<rparr>))"

text \<open>
  One turn of the loop of \<open>_translation_thread\<close>. When the queue is empty, \<open>get\<close>
  times out and the loop continues. Otherwise the head is taken; \<open>arrivals\<close> are the
  items a producer puts between \<open>get\<close> and \<open>qsize\<close>, so \<open>queue_size\<close> is measured
  after the item has left the queue.
\<close>

definition worker_iteration ::
  "(seg \<times> bool) list \<Rightarrow> translation_pipeline \<Rightarrow> translation_pipeline" where
  "worker_iteration arrivals s =
     (case translation_queue s of
        [] \<Rightarrow> s
      | (text_segment, is_complete) # rest \<Rightarrow>
          let s1 = s\<lparr>translation_queue := rest @ arrivals\<rparr>;
              queue_size = length (translation_queue s1)
          in if is_complete \<or> queue_size = 0 then
               let prepared_text = prepare s1 (seg_text text_segment)
               in s1\<lparr>calls := calls s1 @
                      map (\<lambda>T. (tgt_lang T, prepared_text, is_complete)) (translators s1)\<rparr>
             else s1\<lparr>warnings := warnings s1 @ [queue_size]\<rparr>)"

text \<open>
  The loop \<open>while self.should_run\<close>, one list of arrivals for each turn the worker is
  given.
\<close>

fun translation_thread ::
  "(seg \<times> bool) list list \<Rightarrow> translation_pipeline \<Rightarrow> translation_pipeline" where
  "translation_thread [] s = s"
| "translation_thread (arrivals # turns) s =
     (if should_run s then translation_thread turns (worker_iteration arrivals s) else s)"

text \<open>
  The scenario of the stale-incomplete drop: two translators, the worker not yet
  running, three segments put in the queue, the last one complete.
\<close>

definition paused_pipeline :: translation_pipeline where
  "paused_pipeline =
     \<lparr>pipeline_model_name = ''facebook/m2m100_418M'',
      translators =
        [\<lparr>src_lang = ''en'', tgt_lang = ''de'', model_name = ''facebook/m2m100_418M''\<rparr>,
         \<lparr>src_lang = ''en'', tgt_lang = ''fr'', model_name = ''facebook/m2m100_418M''\<rparr>],
      translation_queue =
        [((Some 0, Some 1, ''seg1''), False),
         ((Some 0, Some 2, ''seg2''), False),
         ((Some 0, Some 3, ''seg3''), True)],
      should_run = True, calls = [], warnings = []\<rparr>"

section \<open>Properties of the hypothesis buffer\<close>

subsection \<open>flush commits the longest common prefix\<close>

lemma flush_loop_eq:
  "flush_loop commit s =
     (let k = common_prefix_len (new s) (buffer s) in
      (commit @ take k (new s),
       s\<lparr>last_commited_word :=
           (if k = 0 then last_commited_word s else Some (w_text (new s ! (k - 1)))),
         last_commited_time :=
           (if k = 0 then last_commited_time s else w_end (new s ! (k - 1))),
         buffer := drop k (buffer s), new := drop k (new s)\<rparr>))"
proof (induction commit s rule: flush_loop.induct)
  case (1 commit s)
  show ?case
  proof (cases "new s")
    case Nil
    then show ?thesis by (simp add: flush_loop.simps[of commit s])
  next
    case N: (Cons n ns)
    obtain na nb nt where n: "n = (na, nb, nt)" by (cases n) auto
    show ?thesis
    proof (cases "buffer s")
      case Nil
      then show ?thesis using N by (simp add: flush_loop.simps[of commit s] n)
    next
      case B: (Cons b bs)
      show ?thesis
      proof (cases "nt = w_text b")
        case True
        have "flush_loop commit s = flush_loop (commit @ [(na, nb, nt)])
                (s\<lparr>last_commited_word := Some nt, last_commited_time := nb,
                   buffer := bs, new := ns\<rparr>)"
          using N B True n by (simp add: flush_loop.simps[of commit s])
        also note "1.IH"[OF N[unfolded n] refl refl B True]
        finally show ?thesis
          using N B True n
          by (auto simp: Let_def w_text_def w_end_def nth_Cons split: nat.splits)
      next
        case False
        then show ?thesis using N B n
          by (simp add: flush_loop.simps[of commit s] w_text_def)
      qed
    qed
  qed
qed

lemma flush_eq:
  "flush s =
     (let k = common_prefix_len (new s) (buffer s) in
      (take k (new s),
       s\<lparr>commited_in_buffer := commited_in_buffer s @ take k (new s),
         buffer := drop k (new s), new := [],
         last_commited_word :=
           (if k = 0 then last_commited_word s else Some (w_text (new s ! (k - 1)))),
         last_commited_time :=
           (if k = 0 then last_commited_time s else w_end (new s ! (k - 1)))\<rparr>))"
  by (simp add: flush_def flush_loop_eq Let_def)

lemma common_prefix_len_le:
  "common_prefix_len xs ys \<le> length xs \<and> common_prefix_len xs ys \<le> length ys"
  by (induction xs ys rule: common_prefix_len.induct) auto

lemma common_prefix_len_agree:
  "map w_text (take (common_prefix_len xs ys) xs) =
   map w_text (take (common_prefix_len xs ys) ys)"
  by (induction xs ys rule: common_prefix_len.induct) auto

lemma common_prefix_len_stop:
  "common_prefix_len xs ys = length xs \<or> common_prefix_len xs ys = length ys \<or>
   w_text (xs ! common_prefix_len xs ys) \<noteq> w_text (ys ! common_prefix_len xs ys)"
  by (induction xs ys rule: common_prefix_len.induct) auto

text \<open>
  C1. \<open>flush\<close> returns the longest common prefix, by text equality, of \<open>new\<close> (the
  incoming hypothesis) and \<open>buffer\<close> (the pending one): the returned words are the
  first \<open>k\<close> words of \<open>new\<close>, their texts are those of the first \<open>k\<close> words of
  \<open>buffer\<close>, and \<open>k\<close> is where one list ends or the texts first differ. Afterwards
  \<open>buffer\<close> is the rest of \<open>new\<close>, \<open>new\<close> is empty and the returned words have been
  appended to \<open>commited_in_buffer\<close>. In the scenario of the specification the first
  flush returns nothing, the second returns hello, world, and today remains.
\<close>

theorem flush_longest_common_prefix:
  "(let k = common_prefix_len (new s) (buffer s); r = flush s in
      fst r = take k (new s) \<and>
      k \<le> length (new s) \<and> k \<le> length (buffer s) \<and>
      map w_text (fst r) = map w_text (take k (buffer s)) \<and>
      (k = length (new s) \<or> k = length (buffer s) \<or>
         w_text (new s ! k) \<noteq> w_text (buffer s ! k)) \<and>
      complete_hyp (snd r) = drop k (new s) \<and>
      new (snd r) = [] \<and>
      commited_in_buffer (snd r) = commited_in_buffer s @ fst r) \<and>
   (let h1 = [(0, 0.5, ''hello''), (0.5, 1, ''world'')];
        h2 = [(0, 0.5, ''hello''), (0.5, 1, ''world''), (1, 1.5, ''today'')];
        r1 = flush (insert_hyp h1 0 init_buffer);
        r2 = flush (insert_hyp h2 0 (snd r1))
    in fst r1 = [] \<and>
       fst r2 = [(0, 0.5, ''hello''), (0.5, 1, ''world'')] \<and>
       map w_text (fst r2) = [''hello'', ''world''] \<and>
       complete_hyp (snd r2) = [(1, 1.5, ''today'')] \<and>
       map w_text (complete_hyp (snd r2)) = [''today''])"
proof -
  have general:
    "(let k = common_prefix_len (new s) (buffer s); r = flush s in
      fst r = take k (new s) \<and>
      k \<le> length (new s) \<and> k \<le> length (buffer s) \<and>
      map w_text (fst r) = map w_text (take k (buffer s)) \<and>
      (k = length (new s) \<or> k = length (buffer s) \<or>
         w_text (new s ! k) \<noteq> w_text (buffer s ! k)) \<and>
      complete_hyp (snd r) = drop k (new s) \<and>
      new (snd r) = [] \<and>
      commited_in_buffer (snd r) = commited_in_buffer s @ fst r)"
    using common_prefix_len_le[of "new s" "buffer s"]
      common_prefix_len_agree[of "new s" "buffer s"]
      common_prefix_len_stop[of "new s" "buffer s"]
    by (simp add: flush_eq Let_def complete_hyp_def)
  have scenario:
    "(let h1 = [(0, 0.5, ''hello''), (0.5, 1, ''world'')];
        h2 = [(0, 0.5, ''hello''), (0.5, 1, ''world''), (1, 1.5, ''today'')];
        r1 = flush (insert_hyp h1 0 init_buffer);
        r2 = flush (insert_hyp h2 0 (snd r1))
    in fst r1 = [] \<and>
       fst r2 = [(0, 0.5, ''hello''), (0.5, 1, ''world'')] \<and>
       map w_text (fst r2) = [''hello'', ''world''] \<and>
       complete_hyp (snd r2) = [(1, 1.5, ''today'')] \<and>
       map w_text (complete_hyp (snd r2)) = [''today''])"
    by code_simp
  from general scenario show ?thesis by (rule conjI)
qed

subsection \<open>n-gram removal in insert\<close>

lemma commited_ngram_eq:
  assumes "i \<le> length c"
  shows "commited_ngram i c = join '' '' (map w_text (drop (length c - i) c))"
proof -
  have "rev (map (\<lambda>j. w_text (c ! (length c - j))) [1 ..< Suc i]) = map w_text (drop (length c - i) c)"
  proof (rule nth_equalityI)
    show "length (rev (map (\<lambda>j. w_text (c ! (length c - j))) [1 ..< Suc i])) = length (map w_text (drop (length c - i) c))"
      using assms by (simp del: upt_Suc)
  next
    fix k assume "k < length (rev (map (\<lambda>j. w_text (c ! (length c - j))) [1 ..< Suc i]))"
    then have k: "k < i" by (simp del: upt_Suc)
    then have "rev (map (\<lambda>j. w_text (c ! (length c - j))) [1 ..< Suc i]) ! k
        = w_text (c ! (length c - (i - k)))"
      by (simp add: rev_nth del: upt_Suc)
    also have "length c - (i - k) = length c - i + k" using k assms by simp
    finally show "rev (map (\<lambda>j. w_text (c ! (length c - j))) [1 ..< Suc i]) ! k = map w_text (drop (length c - i) c) ! k"
      using k assms by simp
  qed
  then show ?thesis by (simp add: commited_ngram_def)
qed

lemma new_ngram_eq:
  assumes "i \<le> length n"
  shows "new_ngram i n = join '' '' (map w_text (take i n))"
proof -
  have "map (\<lambda>j. w_text (n ! (j - 1))) [1 ..< Suc i] = map w_text (take i n)"
    using assms by (intro nth_equalityI) (auto simp del: upt_Suc)
  then show ?thesis by (simp add: new_ngram_def)
qed

lemma ngram_loop_find:
  "ngram_loop idx c n =
     (case find (\<lambda>i. commited_ngram i c = new_ngram i n) idx of
        None \<Rightarrow> n | Some i \<Rightarrow> drop i n)"
  by (induction idx) auto

lemma ngram_loop_none:
  assumes "\<forall>i. 1 \<le> i \<and> i \<le> m \<longrightarrow> \<not> ngram_match c n i" "m \<le> length c" "m \<le> length n"
  shows "ngram_loop [1 ..< Suc m] c n = n"
proof -
  have "find (\<lambda>i. commited_ngram i c = new_ngram i n) [1 ..< Suc m] = None"
    using assms by (auto simp: find_None_iff commited_ngram_eq new_ngram_eq ngram_match_def simp del: upt_Suc)
  then show ?thesis by (simp add: ngram_loop_find)
qed

lemma ngram_loop_first:
  assumes "1 \<le> k" "k \<le> m" "ngram_match c n k"
    "\<forall>i. 1 \<le> i \<and> i < k \<longrightarrow> \<not> ngram_match c n i" "m \<le> length c" "m \<le> length n"
  shows "ngram_loop [1 ..< Suc m] c n = drop k n"
proof -
  have "find (\<lambda>i. commited_ngram i c = new_ngram i n) [1 ..< Suc m] = Some k"
    unfolding find_Some_iff
  proof (intro exI[of _ "k - 1"] conjI allI impI)
    have idx: "\<And>j. j < m \<Longrightarrow> [1..<Suc m] ! j = Suc j" by (simp del: upt_Suc)
    show "k - 1 < length [1..<Suc m]" using assms by (simp del: upt_Suc)
    show "commited_ngram ([1..<Suc m] ! (k - 1)) c = new_ngram ([1..<Suc m] ! (k - 1)) n"
      using assms by (simp add: idx commited_ngram_eq new_ngram_eq ngram_match_def del: upt_Suc)
    show "k = [1..<Suc m] ! (k - 1)" using assms by (simp add: idx del: upt_Suc)
    fix j assume "j < k - 1"
    then show "commited_ngram ([1..<Suc m] ! j) c \<noteq> new_ngram ([1..<Suc m] ! j) n"
      using assms by (simp add: idx commited_ngram_eq new_ngram_eq ngram_match_def del: upt_Suc)
  qed
  then show ?thesis by (simp add: ngram_loop_find)
qed


text \<open>
  C2 (as the code has it). When \<open>commited_in_buffer\<close> is not empty, some word is kept
  and the first kept word starts less than one second from \<open>last_commited_time\<close>:
  among the \<open>n\<close> from 1 to \<open>min(|committed|, |kept|, 5)\<close> whose joined n-grams are
  equal, the loop takes the smallest one (it leaves at the first match) and drops that
  many words from the front; when no \<open>n\<close> matches, the kept words are stored unchanged.
\<close>

theorem insert_drops_smallest_ngram:
  assumes "commited_in_buffer s \<noteq> []"
    and "kept = kept_words new_words offset s"
    and "kept \<noteq> []"
    and "\<bar>w_beg (hd kept) - last_commited_time s\<bar> < 1"
    and "m = min (min (length (commited_in_buffer s)) (length kept)) 5"
  shows "((\<forall>i. 1 \<le> i \<and> i \<le> m \<longrightarrow> \<not> ngram_match (commited_in_buffer s) kept i) \<longrightarrow>
            insert_hyp new_words offset s = s\<lparr>new := kept\<rparr>) \<and>
         (1 \<le> n \<and> n \<le> m \<and> ngram_match (commited_in_buffer s) kept n \<and>
          (\<forall>i. 1 \<le> i \<and> i < n \<longrightarrow> \<not> ngram_match (commited_in_buffer s) kept i) \<longrightarrow>
            insert_hyp new_words offset s = s\<lparr>new := drop n kept\<rparr>)"
proof -
  obtain a b t rest where k: "kept = (a, b, t) # rest"
    using assms(3) by (cases kept) auto
  have near: "\<bar>a - last_commited_time s\<bar> < 1"
    using assms(4) k by (simp add: w_beg_def)
  have ins: "insert_hyp new_words offset s =
      s\<lparr>new := ngram_loop [1 ..< Suc m] (commited_in_buffer s) kept\<rparr>"
    using assms(1) assms(2)[symmetric] near k assms(5)
    by (simp add: insert_hyp_def kept_words_def Let_def del: upt_Suc)
  have mc: "m \<le> length (commited_in_buffer s)" and mk: "m \<le> length kept"
    using assms(5) by simp_all
  show ?thesis
    using ngram_loop_none[OF _ mc mk] ngram_loop_first[OF _ _ _ _ mc mk, of n]
    by (simp add: ins)
qed

theorem insert_drops_smallest_ngram_witness:
  "commited_in_buffer the_cat_buffer = [(0, 0.5, ''the''), (0.5, 1, ''cat'')] \<and>
   last_commited_time the_cat_buffer = 1 \<and>
   kept_words [(1, 1.5, ''the''), (1.5, 2, ''cat''), (2, 2.5, ''sat'')] 0 the_cat_buffer =
     [(1, 1.5, ''the''), (1.5, 2, ''cat''), (2, 2.5, ''sat'')] \<and>
   \<not> ngram_match (commited_in_buffer the_cat_buffer)
        [(1, 1.5, ''the''), (1.5, 2, ''cat''), (2, 2.5, ''sat'')] 1 \<and>
   ngram_match (commited_in_buffer the_cat_buffer)
        [(1, 1.5, ''the''), (1.5, 2, ''cat''), (2, 2.5, ''sat'')] 2 \<and>
   insert_hyp [(1, 1.5, ''the''), (1.5, 2, ''cat''), (2, 2.5, ''sat'')] 0 the_cat_buffer =
     the_cat_buffer\<lparr>new := [(2, 2.5, ''sat'')]\<rparr>"
proof -
  let ?h = "[(1, 1.5, ''the''), (1.5, 2, ''cat''), (2, 2.5, ''sat'')] :: tsw list"
  have c: "commited_in_buffer the_cat_buffer = [(0, 0.5, ''the''), (0.5, 1, ''cat'')]"
    by code_simp
  have l: "last_commited_time the_cat_buffer = 1"
    by code_simp
  have kw: "kept_words ?h 0 the_cat_buffer = ?h"
    by code_simp
  have n1: "\<not> ngram_match (commited_in_buffer the_cat_buffer) ?h 1"
    by code_simp
  have n2: "ngram_match (commited_in_buffer the_cat_buffer) ?h 2"
    by code_simp
  have h1: "commited_in_buffer the_cat_buffer \<noteq> []" using c by simp
  have h3: "?h \<noteq> []" by simp
  have h4: "\<bar>w_beg (hd ?h) - last_commited_time the_cat_buffer\<bar> < 1"
    using l by (simp add: w_beg_def)
  have h5: "2 = min (min (length (commited_in_buffer the_cat_buffer)) (length ?h)) 5"
    using c by simp
  have small: "\<forall>i. 1 \<le> i \<and> i < (2::nat) \<longrightarrow> \<not> ngram_match (commited_in_buffer the_cat_buffer) ?h i"
  proof (intro allI impI)
    fix i :: nat assume "1 \<le> i \<and> i < 2"
    then have "i = 1" by simp
    then show "\<not> ngram_match (commited_in_buffer the_cat_buffer) ?h i" using n1 by simp
  qed
  have "insert_hyp ?h 0 the_cat_buffer = the_cat_buffer\<lparr>new := drop 2 ?h\<rparr>"
    using insert_drops_smallest_ngram[OF h1 kw[symmetric] h3 h4 h5, of 2] n2 small
    by simp
  then show ?thesis using c l kw n1 n2 by simp
qed

text \<open>
  C2 as stated fails: after committing a, a, the hypothesis a, a, b matches at
  \<open>n = 1\<close> and at \<open>n = 2\<close>; the loop drops one word, not two.
\<close>

theorem insert_ngram_not_largest:
  "commited_in_buffer repeated_a_buffer = [(0, 0.5, ''a''), (0.5, 1, ''a'')] \<and>
   last_commited_time repeated_a_buffer = 1 \<and>
   kept_words [(1, 1.5, ''a''), (1.5, 2, ''a''), (2, 2.5, ''b'')] 0 repeated_a_buffer =
     [(1, 1.5, ''a''), (1.5, 2, ''a''), (2, 2.5, ''b'')] \<and>
   map w_text (drop 0 (commited_in_buffer repeated_a_buffer)) =
     map w_text (take 2 [(1, 1.5, ''a''), (1.5, 2, ''a''), (2, 2.5, ''b'')]) \<and>
   new (insert_hyp [(1, 1.5, ''a''), (1.5, 2, ''a''), (2, 2.5, ''b'')] 0 repeated_a_buffer) =
     [(1.5, 2, ''a''), (2, 2.5, ''b'')] \<and>
   new (insert_hyp [(1, 1.5, ''a''), (1.5, 2, ''a''), (2, 2.5, ''b'')] 0 repeated_a_buffer) \<noteq>
     drop 2 [(1, 1.5, ''a''), (1.5, 2, ''a''), (2, 2.5, ''b'')]"
  by code_simp

subsection \<open>The same hypothesis twice\<close>

lemma insert_hyp_fields [simp]:
  "commited_in_buffer (insert_hyp h off s) = commited_in_buffer s"
  "buffer (insert_hyp h off s) = buffer s"
  "last_commited_time (insert_hyp h off s) = last_commited_time s"
  "last_commited_word (insert_hyp h off s) = last_commited_word s"
  by (simp_all add: insert_hyp_def Let_def split: list.splits del: upt_Suc)

lemma insert_hyp_new_cong:
  "commited_in_buffer s' = commited_in_buffer s \<Longrightarrow>
   last_commited_time s' = last_commited_time s \<Longrightarrow>
   new (insert_hyp h off s') = new (insert_hyp h off s)"
  by (simp add: insert_hyp_def kept_words_def Let_def split: list.splits del: upt_Suc)

lemma common_prefix_len_same: "common_prefix_len xs xs = length xs"
  by (induction xs) auto

lemma kept_words_fresh:
  "kept_words h 0 init_buffer = filter (\<lambda>w. w_beg w > - 0.1) h"
  by (induction h) (auto simp: kept_words_def init_buffer_def w_beg_def)

lemma insert_hyp_fresh: "new (insert_hyp h 0 init_buffer) = kept_words h 0 init_buffer"
  by (simp add: insert_hyp_def init_buffer_def Let_def split: list.splits)

text \<open>
  C9 (as the code has it). On a buffer whose \<open>buffer\<close> list is empty, such as a fresh
  one, \<open>insert(h, 0); flush(); insert(h, 0); flush()\<close> commits at the second flush
  only: the first flush returns the empty list, and the second returns every word the
  insert stored, which for a fresh buffer is every word of \<open>h\<close> that starts after
  \<open>-0.1\<close>.
\<close>

theorem same_hypothesis_twice:
  assumes "buffer s = []"
  shows "fst (flush (insert_hyp h 0 s)) = [] \<and>
         fst (flush (insert_hyp h 0 (snd (flush (insert_hyp h 0 s))))) = new (insert_hyp h 0 s) \<and>
         new (insert_hyp h 0 init_buffer) = filter (\<lambda>w. w_beg w > - 0.1) h"
proof -
  let ?s1 = "insert_hyp h 0 s"
  have k0: "common_prefix_len (new ?s1) (buffer ?s1) = 0"
    using assms by simp
  have r1: "fst (flush ?s1) = []"
    using k0 by (simp add: flush_eq Let_def)
  let ?s2 = "snd (flush ?s1)"
  have f2: "commited_in_buffer ?s2 = commited_in_buffer s"
    "last_commited_time ?s2 = last_commited_time s" "buffer ?s2 = new ?s1"
    using k0 by (simp_all add: flush_eq Let_def)
  let ?s3 = "insert_hyp h 0 ?s2"
  have n3: "new ?s3 = new ?s1"
    using f2 by (metis insert_hyp_new_cong)
  have b3: "buffer ?s3 = new ?s1" using f2 by simp
  have k3: "common_prefix_len (new ?s1) (buffer ?s2) = length (new ?s1)"
    unfolding f2(3) by (rule common_prefix_len_same)
  have "fst (flush ?s3) = take (common_prefix_len (new ?s3) (buffer ?s3)) (new ?s3)"
    by (simp add: flush_eq Let_def)
  also have "\<dots> = new ?s1"
    by (simp add: n3 k3)
  finally have "fst (flush ?s3) = new ?s1" .
  then show ?thesis using r1 by (simp add: insert_hyp_fresh kept_words_fresh)
qed

theorem same_hypothesis_twice_witness:
  "buffer init_buffer = [] \<and>
   fst (flush (insert_hyp [(0, 0.5, ''hello''), (0.5, 1, ''world'')] 0 init_buffer)) = [] \<and>
   fst (flush (insert_hyp [(0, 0.5, ''hello''), (0.5, 1, ''world'')] 0
     (snd (flush (insert_hyp [(0, 0.5, ''hello''), (0.5, 1, ''world'')] 0 init_buffer))))) =
     [(0, 0.5, ''hello''), (0.5, 1, ''world'')]"
proof -
  have b: "buffer init_buffer = []" by (simp add: init_buffer_def)
  have n: "new (insert_hyp [(0, 0.5, ''hello''), (0.5, 1, ''world'')] 0 init_buffer) =
      [(0, 0.5, ''hello''), (0.5, 1, ''world'')]"
    by code_simp
  show ?thesis
    using same_hypothesis_twice[OF b, of "[(0, 0.5, ''hello''), (0.5, 1, ''world'')]"] b n
    by simp
qed

text \<open>
  C9 as stated fails: with the hypothesis hello on a fresh buffer, the first flush
  returns nothing and the second flush returns hello.
\<close>

theorem second_flush_commits:
  "fst (flush (insert_hyp [(0, 0.5, ''hello'')] 0 init_buffer)) = [] \<and>
   fst (flush (insert_hyp [(0, 0.5, ''hello'')] 0
     (snd (flush (insert_hyp [(0, 0.5, ''hello'')] 0 init_buffer))))) = [(0, 0.5, ''hello'')] \<and>
   fst (flush (insert_hyp [(0, 0.5, ''hello'')] 0
     (snd (flush (insert_hyp [(0, 0.5, ''hello'')] 0 init_buffer))))) \<noteq> []"
  by code_simp

subsection \<open>Order of the committed end times\<close>













section \<open>Properties of the sentence segmenter\<close>

text \<open>
  C5. The claim: a leading full stop is stripped, and an ellipsis is collapsed to one
  character; neither word closes a sentence. The code evaluated on two one-word lists: the
  word wait... comes back as the tail with its text unchanged (the result of
  \<open>replace\<close> is dropped), and on the word .hello the call raises TypeError at the
  assignment into the tuple instead of stripping the full stop.
\<close>

theorem ellipsis_left_unchanged:
  "words_to_sentences [(0, 1, ''wait...'')] = Inr ([], [(0, 1, ''wait...'')]) \<and>
   words_to_sentences [(0, 1, ''.hello'')] = Inl TypeError"
  by code_simp

text \<open>
  C10. On the empty word list the loop body never runs, \<open>break_sentence\<close> is never
  assigned, and the test \<open>if break_sentence\<close> after the loop raises UnboundLocalError:
  the call does not return the pair of two empty lists.
\<close>

theorem words_to_sentences_empty:
  "words_to_sentences [] = Inl UnboundLocalError \<and>
   words_to_sentences [] \<noteq> Inr ([], [])"
  by (simp add: words_to_sentences_def)

section \<open>Properties of the processor\<close>

subsection \<open>Trimming in segment mode\<close>

lemma ends_loop_char:
  "2 \<le> length ends \<Longrightarrow> e = ends ! (length ends - 2) \<Longrightarrow>
   \<exists>n. 1 \<le> n \<and> n < length ends \<and>
       ends_loop t ends e = (take (Suc n) ends, ends ! (n - 1)) \<and>
       (\<forall>j. n < j \<and> j < length ends \<longrightarrow> ends ! (j - 1) > t) \<and>
       (n = 1 \<or> ends ! (n - 1) \<le> t)"
proof (induction t ends e rule: ends_loop.induct)
  case (1 t ends e)
  show ?case
  proof (cases "length ends > 2 \<and> e > t")
    case False
    have "ends_loop t ends e = (ends, e)"
      by (subst ends_loop.simps) (use False in auto)
    moreover have "take (Suc (length ends - 1)) ends = ends" by simp
    ultimately show ?thesis
      using "1.prems" False
      by (intro exI[of _ "length ends - 1"]) (auto simp: numeral_2_eq_2)
  next
    case True
    let ?b = "butlast ends"
    have lb: "2 \<le> length ?b" using True by (simp add: numeral_2_eq_2) arith
    from "1.IH"[OF True lb refl]
    obtain n where n: "1 \<le> n" "n < length ?b"
      "ends_loop t ?b (?b ! (length ?b - 2)) = (take (Suc n) ?b, ?b ! (n - 1))"
      "\<forall>j. n < j \<and> j < length ?b \<longrightarrow> ?b ! (j - 1) > t"
      "n = 1 \<or> ?b ! (n - 1) \<le> t"
      by blast
    have nth: "\<And>i. i < length ?b \<Longrightarrow> ?b ! i = ends ! i"
      by (simp add: nth_butlast)
    have tk: "take (Suc n) ?b = take (Suc n) ends"
      using n(2) by (simp add: butlast_conv_take)
    have step: "ends_loop t ends e = ends_loop t ?b (?b ! (length ?b - 2))"
      by (subst ends_loop.simps) (use True in auto)
    have popped: "\<forall>j. n < j \<and> j < length ends \<longrightarrow> ends ! (j - 1) > t"
    proof (intro allI impI)
      fix j assume j: "n < j \<and> j < length ends"
      show "ends ! (j - 1) > t"
      proof (cases "j < length ?b")
        case True
        then have "?b ! (j - 1) > t" using n(4) j by blast
        then show ?thesis using True nth[of "j - 1"] by simp
      next
        case False
        then have "j - 1 = length ends - 2" using j unfolding length_butlast by arith
        then show ?thesis using "1.prems"(2) \<open>2 < length ends \<and> t < e\<close> by simp
      qed
    qed
    have e1: "?b ! (n - 1) = ends ! (n - 1)"
      using nth[of "n - 1"] n(1,2) by simp
    have res: "ends_loop t ends e = (take (Suc n) ends, ends ! (n - 1))"
      unfolding step n(3) tk e1 ..
    have nl: "n < length ends" using n(2) by simp
    have stop: "n = 1 \<or> ends ! (n - 1) \<le> t" using n(5) e1 by simp
    show ?thesis
      using n(1) nl res popped stop by blast
  qed
qed


lemma chunk_at_fields [simp]:
  "final_transcript (chunk_at time p) = final_transcript p"
  "commited_not_final (chunk_at time p) = commited_not_final p"
  "promt (chunk_at time p) = promt p"
  "buffer_trimming_way (chunk_at time p) = buffer_trimming_way p"
  "buffer_trimming_sec (chunk_at time p) = buffer_trimming_sec p"
  "buffer_time_offset (chunk_at time p) = time"
  by (simp_all add: chunk_at_def Let_def)

lemma chunk_completed_segment_char:
  assumes "length words > 1"
  shows "\<exists>n. 1 \<le> n \<and> n < length words \<and>
           (\<forall>j. n < j \<and> j < length words \<longrightarrow> w_end (words ! (j - 1)) > w_end (last words)) \<and>
           (n = 1 \<or> w_end (words ! (n - 1)) \<le> w_end (last words)) \<and>
           chunk_completed_segment words p =
             (if w_end (words ! (n - 1)) \<le> w_end (last words)
              then (take n words,
                    (chunk_at (w_end (words ! (n - 1))) p)
                      \<lparr>final_transcript := final_transcript p @ map seg_of (take n words),
                        commited_not_final := drop n words\<rparr>)
              else ([], p))"
proof -
  let ?ends = "map w_end words"
  let ?t = "w_end (words ! (length words - 1))"
  have l2: "2 \<le> length ?ends" using assms by simp
  obtain n where n: "1 \<le> n" "n < length ?ends"
    "ends_loop ?t ?ends (?ends ! (length ?ends - 2)) = (take (Suc n) ?ends, ?ends ! (n - 1))"
    "\<forall>j. n < j \<and> j < length ?ends \<longrightarrow> ?ends ! (j - 1) > ?t"
    "n = 1 \<or> ?ends ! (n - 1) \<le> ?t"
    using ends_loop_char[OF l2 refl, of ?t] by blast
  have t: "?t = w_end (last words)"
    using assms by (cases words rule: rev_cases) simp_all
  have en: "?ends ! (n - 1) = w_end (words ! (n - 1))"
    using n(1,2) by simp
  have ej: "\<And>j. n < j \<and> j < length words \<Longrightarrow> ?ends ! (j - 1) = w_end (words ! (j - 1))"
    by (rule nth_map) arith
  have len: "length (take (Suc n) ?ends) - 1 = n"
    using n(2) by simp
  have c: "chunk_completed_segment words p =
             (if w_end (words ! (n - 1)) \<le> w_end (last words)
              then (take n words,
                    (chunk_at (w_end (words ! (n - 1))) p)
                      \<lparr>final_transcript := final_transcript p @ map seg_of (take n words),
                        commited_not_final := drop n words\<rparr>)
              else ([], p))"
  proof -
    have e2: "?ends ! (length ?ends - 2) = w_end (words ! (length words - 2))"
      using assms by simp
    have n3: "ends_loop (w_end (last words)) (map w_end words)
                (w_end (words ! (length words - 2))) =
              (take (Suc n) (map w_end words), w_end (words ! (n - 1)))"
      using n(3) unfolding t en e2 .
    have len': "length (take (Suc n) (map w_end words)) - 1 = n"
      using n(2) by simp
    have "chunk_completed_segment words p =
        (let ends0 = map w_end words; t = w_end (last words);
             (ends, e) = ends_loop t ends0 (w_end (words ! (length words - 2)))
         in if e \<le> t then
              let p1 = chunk_at e p;
                  n_commited_words = length ends - 1;
                  words_to_commit = take n_commited_words words;
                  p2 = p1\<lparr>final_transcript :=
                          final_transcript p1 @ map seg_of words_to_commit\<rparr>;
                  p3 = p2\<lparr>commited_not_final := drop n_commited_words words\<rparr>
              in (words_to_commit, p3)
            else ([], p))"
      using assms e2 t by (simp add: chunk_completed_segment_def Let_def)
    also have "\<dots> = (if w_end (words ! (n - 1)) \<le> w_end (last words)
              then (take n words,
                    (chunk_at (w_end (words ! (n - 1))) p)
                      \<lparr>final_transcript := final_transcript p @ map seg_of (take n words),
                        commited_not_final := drop n words\<rparr>)
              else ([], p))"
      unfolding Let_def n3 prod.case len' by simp
    finally show ?thesis .
  qed
  have p1: "\<forall>j. n < j \<and> j < length words \<longrightarrow> w_end (words ! (j - 1)) > w_end (last words)"
    using n(4) ej unfolding t by auto
  have p2: "n = 1 \<or> w_end (words ! (n - 1)) \<le> w_end (last words)"
    using n(5) unfolding t en .
  show ?thesis
    using n(1) n(2) p1 p2 c by (intro exI[of _ n]) simp
qed


lemma segment_example_result:
  "get_completed_words segment_trim_example =
     (Inr [(Some 0, Some 1, ''a''), (Some 1, Some 2, ''b''), (Some 9.5, Some 10, ''c'')],
      segment_trim_example
        \<lparr>audio_buffer := replicate 32000 0,
         transcript_buffer := (transcript_buffer segment_trim_example)
           \<lparr>commited_in_buffer := [(10, 10.5, ''d'')]\<rparr>,
         buffer_time_offset := 10,
         final_transcript :=
           [(Some 0, Some 1, ''a''), (Some 1, Some 2, ''b''), (Some 9.5, Some 10, ''c'')],
         commited_not_final := [(10, 10.5, ''d'')]\<rparr>)"
proof -
  have loop: "ends_loop (21 / 2) [1, 2, 10, 21 / 2] 10 = ([1, 2, 10, 21 / 2], 10)"
    by (subst ends_loop.simps) simp
  show ?thesis
    by (simp add: get_completed_words_def forced_chunk_def segment_trim_example_def
        SAMPLING_RATE_def chunk_completed_segment_def w_end_def w_beg_def w_text_def Let_def loop
        chunk_at_def pop_commited_def py_int_def py_slice_from_def seg_of_def)
qed

text \<open>
  C3. In segment mode, with at least \<open>buffer_trimming_sec\<close> seconds of audio:
  \<open>get_completed_words\<close> returns nothing and changes nothing when at most one word is
  committed and not final. Otherwise the loop over \<open>ends\<close> stops at a number \<open>n\<close> of
  words, between 1 and all but the last: every boundary it popped lies after the end
  \<open>t\<close> of the last word, and the boundary \<open>e\<close> it stops at is the end of word
  \<open>n\<close>; it is at most \<open>t\<close> unless \<open>n = 1\<close>. When \<open>e \<le> t\<close> the first \<open>n\<close>
  words are committed and the buffers are cut at \<open>e\<close>; otherwise nothing is returned. In
  the scenario a, b, c are committed and the cut is at 10, which leaves two seconds of
  audio and the word d.
\<close>

theorem segment_mode_completed_words:
  assumes "buffer_trimming_way p = ''segment''"
    and "real (length (audio_buffer p)) / SAMPLING_RATE \<ge> buffer_trimming_sec p"
    and "words = commited_not_final p"
  shows "(length words \<le> 1 \<longrightarrow> get_completed_words p = (Inr [], p)) \<and>
         (length words > 1 \<longrightarrow>
            (\<exists>n. 1 \<le> n \<and> n < length words \<and>
               (\<forall>j. n < j \<and> j < length words \<longrightarrow>
                    w_end (words ! (j - 1)) > w_end (last words)) \<and>
               (n = 1 \<or> w_end (words ! (n - 1)) \<le> w_end (last words)) \<and>
               get_completed_words p =
                 (if w_end (words ! (n - 1)) \<le> w_end (last words)
                  then (Inr (map seg_of (take n words)),
                        (chunk_at (w_end (words ! (n - 1))) p)
                          \<lparr>final_transcript :=
                             final_transcript p @ map seg_of (take n words),
                           commited_not_final := drop n words\<rparr>)
                  else (Inr [], p)))) \<and>
         fst (get_completed_words segment_trim_example) =
           Inr [(Some 0, Some 1, ''a''), (Some 1, Some 2, ''b''), (Some 9.5, Some 10, ''c'')] \<and>
         buffer_time_offset (snd (get_completed_words segment_trim_example)) = 10 \<and>
         length (audio_buffer (snd (get_completed_words segment_trim_example))) = 32000 \<and>
         commited_not_final (snd (get_completed_words segment_trim_example)) =
           [(10, 10.5, ''d'')]"
proof (intro conjI impI)
  show "fst (get_completed_words segment_trim_example) =
           Inr [(Some 0, Some 1, ''a''), (Some 1, Some 2, ''b''), (Some 9.5, Some 10, ''c'')]"
    by (simp add: segment_example_result)
  show "buffer_time_offset (snd (get_completed_words segment_trim_example)) = 10"
    by (simp add: segment_example_result)
  show "length (audio_buffer (snd (get_completed_words segment_trim_example))) = 32000"
    by (simp add: segment_example_result)
  show "commited_not_final (snd (get_completed_words segment_trim_example)) =
           [(10, 10.5, ''d'')]"
    by (simp add: segment_example_result)
next
  have g: "get_completed_words p =
      (let (completed_words, p1) = chunk_completed_segment words p
       in (Inr (map seg_of completed_words), p1))"
    using assms by (simp add: get_completed_words_def forced_chunk_def)
  {
    assume "length words \<le> 1"
    then show "get_completed_words p = (Inr [], p)"
      by (simp add: g chunk_completed_segment_def)
  }
  {
    assume "length words > 1"
    from chunk_completed_segment_char[OF this, of p]
    obtain n where n: "1 \<le> n" "n < length words"
      "\<forall>j. n < j \<and> j < length words \<longrightarrow> w_end (words ! (j - 1)) > w_end (last words)"
      "n = 1 \<or> w_end (words ! (n - 1)) \<le> w_end (last words)"
      "chunk_completed_segment words p =
             (if w_end (words ! (n - 1)) \<le> w_end (last words)
              then (take n words,
                    (chunk_at (w_end (words ! (n - 1))) p)
                      \<lparr>final_transcript := final_transcript p @ map seg_of (take n words),
                        commited_not_final := drop n words\<rparr>)
              else ([], p))"
      by blast
    have "get_completed_words p =
                 (if w_end (words ! (n - 1)) \<le> w_end (last words)
                  then (Inr (map seg_of (take n words)),
                        (chunk_at (w_end (words ! (n - 1))) p)
                          \<lparr>final_transcript :=
                             final_transcript p @ map seg_of (take n words),
                           commited_not_final := drop n words\<rparr>)
                  else (Inr [], p))"
      unfolding g n(5) by simp
    then show "\<exists>n. 1 \<le> n \<and> n < length words \<and>
               (\<forall>j. n < j \<and> j < length words \<longrightarrow>
                    w_end (words ! (j - 1)) > w_end (last words)) \<and>
               (n = 1 \<or> w_end (words ! (n - 1)) \<le> w_end (last words)) \<and>
               get_completed_words p =
                 (if w_end (words ! (n - 1)) \<le> w_end (last words)
                  then (Inr (map seg_of (take n words)),
                        (chunk_at (w_end (words ! (n - 1))) p)
                          \<lparr>final_transcript :=
                             final_transcript p @ map seg_of (take n words),
                           commited_not_final := drop n words\<rparr>)
                  else (Inr [], p))"
      using n(1-4) by blast
  }
qed


theorem segment_mode_completed_words_witness:
  "buffer_trimming_way segment_trim_example = ''segment'' \<and>
   real (length (audio_buffer segment_trim_example)) / SAMPLING_RATE
     \<ge> buffer_trimming_sec segment_trim_example \<and>
   length (commited_not_final segment_trim_example) = 4 \<and>
   (\<exists>n. 1 \<le> n \<and> n < 4 \<and>
      get_completed_words segment_trim_example =
        (if w_end (commited_not_final segment_trim_example ! (n - 1))
              \<le> w_end (last (commited_not_final segment_trim_example))
         then (Inr (map seg_of (take n (commited_not_final segment_trim_example))),
               (chunk_at (w_end (commited_not_final segment_trim_example ! (n - 1)))
                  segment_trim_example)
                 \<lparr>final_transcript := final_transcript segment_trim_example @
                    map seg_of (take n (commited_not_final segment_trim_example)),
                  commited_not_final := drop n (commited_not_final segment_trim_example)\<rparr>)
         else (Inr [], segment_trim_example)))"
proof -
  have h1: "buffer_trimming_way segment_trim_example = ''segment''"
    by (simp add: segment_trim_example_def)
  have h2: "real (length (audio_buffer segment_trim_example)) / SAMPLING_RATE
     \<ge> buffer_trimming_sec segment_trim_example"
    by (simp add: segment_trim_example_def SAMPLING_RATE_def)
  have l: "length (commited_not_final segment_trim_example) = 4"
    by (simp add: segment_trim_example_def)
  show ?thesis
    using segment_mode_completed_words[OF h1 h2 refl] h1 h2 l
    by auto
qed

subsection \<open>The prompt\<close>

lemma length_py_slice_from_neg: "length (py_slice_from (- 200) s) \<le> 200"
  by (simp add: py_slice_from_def)

lemma py_slice_from_short: "length s \<le> 200 \<Longrightarrow> py_slice_from (- 200) s = s"
  by (simp add: py_slice_from_def)

lemma promt_chunk_completed_segment [simp]:
  "promt (snd (chunk_completed_segment ws p)) = promt p"
  by (simp add: chunk_completed_segment_def Let_def split: prod.splits)

lemma promt_forced_chunk [simp]: "promt (snd (forced_chunk p)) = promt p"
proof -
  obtain x p1 where c: "chunk_completed_segment (commited_not_final p) p = (x, p1)"
    by (cases "chunk_completed_segment (commited_not_final p) p")
  have "promt p1 = promt p"
    using promt_chunk_completed_segment[of "commited_not_final p" p] c by simp
  then show ?thesis
    by (simp add: forced_chunk_def Let_def c)
qed

lemma promt_get_completed_words [simp]: "promt (snd (get_completed_words p)) = promt p"
  by (simp add: get_completed_words_def Let_def split: sum.splits prod.splits option.splits)

lemma promt_transcribe [simp]: "promt (snd (transcribe_audio_buffer a p)) = promt p"
  by (simp add: transcribe_audio_buffer_def Let_def split: sum.splits)

lemma promt_complete_commited:
  "complete_commited c p = (r, p') \<Longrightarrow>
     (case r of
        Inl err \<Rightarrow> promt p' = promt p
      | Inr completed \<Rightarrow>
          promt p' = promt p \<and> seg_text completed = [] \<or>
          promt p' = py_slice_from (- 200) (promt p @ seg_text completed))"
proof -
  assume a: "complete_commited c p = (r, p')"
  let ?p1 = "p\<lparr>commited_not_final := commited_not_final p @ c\<rparr>"
  obtain g p2 where g: "get_completed_words ?p1 = (g, p2)" by (cases "get_completed_words ?p1")
  have pp: "promt p2 = promt p"
    using promt_get_completed_words[of ?p1] g by simp
  show ?thesis
    using a g pp
    by (auto simp: complete_commited_def Let_def empty_seg_def seg_text_def
        split: sum.splits if_splits)
qed


lemma promt_complete_commited_len:
  assumes "length (promt p) \<le> 200"
  shows "length (promt (snd (complete_commited c p))) \<le> 200"
proof -
  obtain r p' where a: "complete_commited c p = (r, p')" by (cases "complete_commited c p")
  show ?thesis
    using promt_complete_commited[OF a] assms length_py_slice_from_neg
    by (auto simp: a split: sum.splits)
qed

lemma promt_complete_commited_eq:
  assumes "length (promt p) \<le> 200" and "complete_commited c p = (Inr completed, p')"
  shows "promt p' = py_slice_from (- 200) (promt p @ seg_text completed)"
  using promt_complete_commited[OF assms(2)] assms(1)
  by (auto simp: py_slice_from_short)

lemma process_iter_cases:
  assumes "process_iter a p = (r, p')"
  shows "(promt p' = promt p \<and> (\<forall>completed u. r = Inr (completed, u) \<longrightarrow> seg_text completed = [])) \<or>
         (\<exists>c p1 rc. promt p1 = promt p \<and> complete_commited c p1 = (rc, p') \<and>
            (\<forall>completed u. r = Inr (completed, u) \<longrightarrow> rc = Inr completed))"
proof -
  obtain t p1 where t: "transcribe_audio_buffer a p = (t, p1)"
    by (cases "transcribe_audio_buffer a p")
  have pp1: "promt p1 = promt p" using promt_transcribe[of a p] t by simp
  show ?thesis
  proof (cases t)
    case (Inl err)
    then show ?thesis using assms t pp1 by (auto simp: process_iter_def)
  next
    case (Inr tsw0)
    show ?thesis
    proof (cases "length (check_words tsw0) = 0")
      case True
      then show ?thesis
        using assms t pp1 Inr by (auto simp: process_iter_def Let_def empty_seg_def seg_text_def)
    next
      case False
      obtain ct tb where f: "flush (insert_hyp (check_words tsw0) 0 (transcript_buffer p1)) = (ct, tb)"
        by (cases "flush (insert_hyp (check_words tsw0) 0 (transcript_buffer p1))")
      let ?p2 = "p1\<lparr>transcript_buffer := tb\<rparr>"
      have pp2: "promt ?p2 = promt p" using pp1 by simp
      show ?thesis
      proof (cases "length ct > 0")
        case True
        obtain rc p3 where cc: "complete_commited ct ?p2 = (rc, p3)"
          by (cases "complete_commited ct ?p2")
        have "p' = p3 \<and> (\<forall>completed u. r = Inr (completed, u) \<longrightarrow> rc = Inr completed)"
          using assms t Inr False f True cc
          by (auto simp: process_iter_def Let_def split: sum.splits)
        then show ?thesis using cc pp2 by blast
      next
        case F2: False
        have "p' = ?p2 \<and> (\<forall>completed u. r = Inr (completed, u) \<longrightarrow> completed = empty_seg)"
          using assms t Inr False f F2
          by (auto simp: process_iter_def Let_def split: sum.splits)
        then show ?thesis using pp2 by (auto simp: empty_seg_def seg_text_def)
      qed
    qed
  qed
qed

lemma promt_process_iter_len:
  assumes "length (promt p) \<le> 200"
  shows "length (promt (snd (process_iter a p))) \<le> 200"
proof -
  obtain r p' where a: "process_iter a p = (r, p')" by (cases "process_iter a p")
  from process_iter_cases[OF a] show ?thesis
  proof
    assume "promt p' = promt p \<and> (\<forall>completed u. r = Inr (completed, u) \<longrightarrow> seg_text completed = [])"
    then show ?thesis using assms a by simp
  next
    assume "\<exists>c p1 rc. promt p1 = promt p \<and> complete_commited c p1 = (rc, p') \<and>
            (\<forall>completed u. r = Inr (completed, u) \<longrightarrow> rc = Inr completed)"
    then obtain c p1 rc where h: "promt p1 = promt p" "complete_commited c p1 = (rc, p')" by blast
    have "length (promt (snd (complete_commited c p1))) \<le> 200"
      using promt_complete_commited_len[of p1 c] h(1) assms by simp
    then show ?thesis using h(2) a by simp
  qed
qed

lemma promt_process_iter_eq:
  assumes "length (promt p) \<le> 200" and "process_iter a p = (Inr (completed, u), p')"
  shows "promt p' = py_slice_from (- 200) (promt p @ seg_text completed)"
proof -
  from process_iter_cases[OF assms(2)] show ?thesis
  proof
    assume "promt p' = promt p \<and>
      (\<forall>c v. Inr (completed, u) = Inr (c, v) \<longrightarrow> seg_text c = [])"
    then have "promt p' = promt p" "seg_text completed = []" by blast+
    then show ?thesis using assms(1) by (simp add: py_slice_from_short)
  next
    assume "\<exists>c p1 rc. promt p1 = promt p \<and> complete_commited c p1 = (rc, p') \<and>
            (\<forall>c' v. Inr (completed, u) = Inr (c', v) \<longrightarrow> rc = Inr c')"
    then obtain c p1 rc where h: "promt p1 = promt p" "complete_commited c p1 = (rc, p')"
      "rc = Inr completed" by blast
    show ?thesis
      using promt_complete_commited_eq[of p1 c completed p'] h assms(1) by simp
  qed
qed

lemma promt_simple [simp]:
  "promt (init offset p) = []"
  "promt (insert_audio_chunk audio p) = promt p"
  by (simp_all add: init_def insert_audio_chunk_def Let_def)

lemma promt_finish [simp]: "promt (snd (finish a p)) = promt p"
proof -
  obtain t p1 where t: "transcribe_audio_buffer a p = (t, p1)"
    by (cases "transcribe_audio_buffer a p")
  have "promt p1 = promt p" using promt_transcribe[of a p] t by simp
  then show ?thesis by (cases t) (simp_all add: finish_def t)
qed

lemma promt_constructed: "new_processor way sec = Inr p \<Longrightarrow> promt p = []"
  by (auto simp: new_processor_def Let_def split: if_splits)

lemma reachable_promt: "reachable p \<Longrightarrow> length (promt p) \<le> 200"
proof (induction rule: reachable.induct)
  case (constructed way sec p)
  then show ?case by (simp add: promt_constructed)
next
  case (after_process_iter p a)
  then show ?case by (simp add: promt_process_iter_len)
qed simp_all


text \<open>
  C6. In every reachable processor the prompt has at most 200 characters: \<open>init\<close>
  empties it, \<open>process_iter\<close> leaves at most 200 characters whether it returns or
  raises, and when it returns, the new prompt is the last 200 characters of the old prompt
  followed by the text of the completed segment it returns. No other method writes the
  prompt.
\<close>

theorem prompt_cap:
  assumes "reachable p"
  shows "length (promt p) \<le> 200 \<and>
         promt (init offset p) = [] \<and>
         length (promt (snd (process_iter a p))) \<le> 200 \<and>
         (process_iter a p = (Inr (completed, uncommitted), p') \<longrightarrow>
            promt p' = py_slice_from (- 200) (promt p @ seg_text completed))"
  using reachable_promt[OF assms] promt_process_iter_len[of p a]
    promt_process_iter_eq[of p a completed uncommitted p']
  by simp


theorem prompt_cap_witness:
  "new_processor ''sentence'' 15 = Inr sentence_processor \<and>
   fst (process_iter hi_asr (insert_audio_chunk [0]
       (snd (process_iter hi_asr (insert_audio_chunk [0] sentence_processor))))) =
     Inr ((Some 0, Some 1, ''Hi.''), (Some 1, Some 2, ''there'')) \<and>
   promt hi_processor = ''Hi.'' \<and>
   length (promt hi_processor) \<le> 200"
proof -
  have c: "new_processor ''sentence'' 15 = Inr sentence_processor"
    by (simp add: new_processor_def sentence_processor_def init_def init_buffer_def)
  have r: "reachable hi_processor"
    unfolding hi_processor_def
    by (intro reachable.after_process_iter reachable.after_insert_audio_chunk
        reachable.constructed[OF c])
  have v: "fst (process_iter hi_asr (insert_audio_chunk [0]
       (snd (process_iter hi_asr (insert_audio_chunk [0] sentence_processor))))) =
     Inr ((Some 0, Some 1, ''Hi.''), (Some 1, Some 2, ''there''))"
    by code_simp
  have pr: "promt hi_processor = ''Hi.''"
    by code_simp
  show ?thesis
    using prompt_cap[OF r] c v pr by simp
qed

section \<open>Properties of the translation pipeline\<close>

lemma deepl_not_m2m100: "\<not> contains_str ''m2m100'' ''deepl''"
  by code_simp

text \<open>
  C7. One turn of the translation worker on a queue whose head is
  \<open>(segment, is_complete)\<close>: with \<open>queue_size\<close> the length of the queue after the
  head has been taken, the segment is prepared once and handed to every translator, in
  order, exactly when \<open>is_complete\<close> holds or \<open>queue_size\<close> is 0; otherwise no
  translator is called and one warning with the queue size is logged. With seg1 and seg2
  incomplete and seg3 complete in the queue before the worker runs, only seg3 reaches the
  translators.
\<close>

theorem stale_incomplete_dropped:
  "calls (worker_iteration arrivals (s\<lparr>translation_queue := (segment, is_complete) # rest\<rparr>)) =
     calls s @
       (if is_complete \<or> length (rest @ arrivals) = 0
        then map (\<lambda>T. (tgt_lang T, prepare s (seg_text segment), is_complete)) (translators s)
        else []) \<and>
   warnings (worker_iteration arrivals (s\<lparr>translation_queue := (segment, is_complete) # rest\<rparr>)) =
     warnings s @
       (if is_complete \<or> length (rest @ arrivals) = 0 then [] else [length (rest @ arrivals)]) \<and>
   translation_queue
       (worker_iteration arrivals (s\<lparr>translation_queue := (segment, is_complete) # rest\<rparr>)) =
     rest @ arrivals \<and>
   calls (translation_thread [[], [], []] paused_pipeline) =
     [(''de'', Tokenized ''seg3'', True), (''fr'', Tokenized ''seg3'', True)] \<and>
   warnings (translation_thread [[], [], []] paused_pipeline) = [2, 1] \<and>
   translation_queue (translation_thread [[], [], []] paused_pipeline) = []"
proof -
  have step:
    "calls (worker_iteration arrivals (s\<lparr>translation_queue := (segment, is_complete) # rest\<rparr>)) =
     calls s @
       (if is_complete \<or> length (rest @ arrivals) = 0
        then map (\<lambda>T. (tgt_lang T, prepare s (seg_text segment), is_complete)) (translators s)
        else [])"
    "warnings (worker_iteration arrivals (s\<lparr>translation_queue := (segment, is_complete) # rest\<rparr>)) =
     warnings s @
       (if is_complete \<or> length (rest @ arrivals) = 0 then [] else [length (rest @ arrivals)])"
    "translation_queue
       (worker_iteration arrivals (s\<lparr>translation_queue := (segment, is_complete) # rest\<rparr>)) =
     rest @ arrivals"
    by (simp_all add: worker_iteration_def Let_def prepare_def)
  have scenario:
    "calls (translation_thread [[], [], []] paused_pipeline) =
       [(''de'', Tokenized ''seg3'', True), (''fr'', Tokenized ''seg3'', True)]"
    "warnings (translation_thread [[], [], []] paused_pipeline) = [2, 1]"
    "translation_queue (translation_thread [[], [], []] paused_pipeline) = []"
    by code_simp+
  from step scenario show ?thesis by simp
qed

text \<open>
  C8. When the call into the translation model raises (\<open>generate\<close> or the decoding for
  an m2m100 model, the hosted call for deepl), the translator returns the string
  \<open>[ Translation Error ]\<close> as its translation and raises nothing.
\<close>

theorem translation_error_sentinel:
  "(contains_str ''m2m100'' (model_name T) \<and>
      (generate m text (tgt_lang T) = Inl e \<or>
       generate m text (tgt_lang T) = Inr tokens \<and> batch_decode m tokens = Inl e)
    \<longrightarrow> translate_prepared_text m T (Tokenized text) = Inr ''[ Translation Error ]'') \<and>
   (model_name T = ''deepl'' \<and>
      translate_text m text (translate_language_code_for_deepl (tgt_lang T))
        (translate_language_code_for_deepl (src_lang T)) = Inl e
    \<longrightarrow> translate_prepared_text m T (Plain text) = Inr ''[ Translation Error ]'')"
proof (intro conjI impI)
  assume a: "contains_str ''m2m100'' (model_name T) \<and>
      (generate m text (tgt_lang T) = Inl e \<or>
       generate m text (tgt_lang T) = Inr tokens \<and> batch_decode m tokens = Inl e)"
  then show "translate_prepared_text m T (Tokenized text) = Inr ''[ Translation Error ]''"
    by (auto simp: translate_prepared_text_def translate_tokenized_text_def translation_error_def)
next
  assume a: "model_name T = ''deepl'' \<and>
      translate_text m text (translate_language_code_for_deepl (tgt_lang T))
        (translate_language_code_for_deepl (src_lang T)) = Inl e"
  then show "translate_prepared_text m T (Plain text) = Inr ''[ Translation Error ]''"
    using deepl_not_m2m100
    by (simp add: translate_prepared_text_def translate_with_deepl_def translation_error_def)
qed

theorem translation_error_sentinel_witness:
  "contains_str ''m2m100'' (model_name m2m_translator) \<and>
   generate failing_model ''hello'' (tgt_lang m2m_translator) = Inl (ExternalError ''out of memory'') \<and>
   translate_prepared_text failing_model m2m_translator (Tokenized ''hello'') =
     Inr ''[ Translation Error ]'' \<and>
   model_name deepl_translator = ''deepl'' \<and>
   translate_text failing_model ''hello''
     (translate_language_code_for_deepl (tgt_lang deepl_translator))
     (translate_language_code_for_deepl (src_lang deepl_translator)) =
     Inl (ExternalError ''quota exceeded'') \<and>
   translate_prepared_text failing_model deepl_translator (Plain ''hello'') =
     Inr ''[ Translation Error ]''"
proof -
  have h1: "contains_str ''m2m100'' (model_name m2m_translator)"
    by code_simp
  have h2: "generate failing_model ''hello'' (tgt_lang m2m_translator) =
      Inl (ExternalError ''out of memory'')"
    by (simp add: failing_model_def)
  have h3: "model_name deepl_translator = ''deepl''"
    by (simp add: deepl_translator_def)
  have h4: "translate_text failing_model ''hello''
     (translate_language_code_for_deepl (tgt_lang deepl_translator))
     (translate_language_code_for_deepl (src_lang deepl_translator)) =
     Inl (ExternalError ''quota exceeded'')"
    by (simp add: failing_model_def)
  show ?thesis
    using translation_error_sentinel[of m2m_translator failing_model "''hello''"
        "ExternalError ''out of memory''" "[]"]
      translation_error_sentinel[of deepl_translator failing_model "''hello''"
        "ExternalError ''quota exceeded''" "[]"]
      h1 h2 h3 h4
    by simp
qed

end
